theory Spec2Isabelle
  imports Main
begin

section \<open>Python values\<close>

text \<open>
  The tasks of \<^verbatim>\<open>modules/backend/tasks/scheduled.py\<close> exchange \<^verbatim>\<open>dict[str, Any]\<close>
  values. A dictionary is an association list in insertion order, looked up with
  \<open>map_of\<close>; the only values the tasks build or inspect are \<^verbatim>\<open>None\<close>, booleans,
  integers, strings, lists and dictionaries. \<open>PBaseException\<close> is an exception object
  that is not an instance of \<^verbatim>\<open>Exception\<close>, with the text of its \<^verbatim>\<open>str\<close>.
\<close>

datatype pyval =
    PNone
  | PBool bool
  | PInt int
  | PStr string
  | PList "pyval list"
  | PDict "(string \<times> pyval) list"
  | PBaseException string

type_synonym pydict = "(string \<times> pyval) list"

datatype py_error = AttributeError string

text \<open>
  \<^verbatim>\<open>c.get(key)\<close>: on a dictionary the stored value, or \<^verbatim>\<open>None\<close> when the key is
  absent; every other value of the model has no attribute \<^verbatim>\<open>get\<close>.
\<close>

fun py_get :: "pyval \<Rightarrow> string \<Rightarrow> py_error + pyval" where
  "py_get (PDict d) k = Inr (case map_of d k of None \<Rightarrow> PNone | Some v \<Rightarrow> v)"
| "py_get v k = Inl (AttributeError ''get'')"

section \<open>The logger\<close>

text \<open>
  A log record is its severity (the name of the logger method called), its message and
  the \<^verbatim>\<open>extra\<close> dictionary if one was passed. The logger is the list of the records
  emitted so far, oldest first.
\<close>

record log_record =
  level :: string
  message :: string
  extra :: "pydict option"

type_synonym logger = "log_record list"

definition emit :: "string \<Rightarrow> string \<Rightarrow> pydict option \<Rightarrow> logger \<Rightarrow> logger" where
  "emit lvl msg ext lg = lg @ [\<lparr>level = lvl, message = msg, extra = ext\<rparr>]"

section \<open>The health aggregator\<close>

text \<open>
  \<^verbatim>\<open>asyncio.gather(check_database(), check_redis(), return_exceptions=True)\<close> delivers,
  for each probe, either the value the probe returned or the exception object that ended
  it. \<open>Raised\<close> stands for an instance of \<^verbatim>\<open>Exception\<close>, which is what line 74 and
  line 76 test for; of it the task only reads \<^verbatim>\<open>str(e)\<close>, so \<open>Raised\<close> carries that
  text. \<open>RaisedBase\<close> stands for an exception that is not an instance of
  \<^verbatim>\<open>Exception\<close>: \<^verbatim>\<open>asyncio.CancelledError\<close> of a cancelled probe, or another direct
  subclass of \<^verbatim>\<open>BaseException\<close>; \<^verbatim>\<open>gather\<close> hands it back as a value like the rest.
\<close>

datatype gathered = Returned pyval | Raised string | RaisedBase string

text \<open>
  Lines 74 to 77: an instance of \<^verbatim>\<open>Exception\<close> is replaced by the dictionary
  \<^verbatim>\<open>{"status": "error", "error": str(e)}\<close>; a returned value is kept as it is, and so
  is an exception object for which \<^verbatim>\<open>isinstance(e, Exception)\<close> is false.
\<close>

fun substitute_exception :: "gathered \<Rightarrow> pyval" where
  "substitute_exception (Raised msg) =
     PDict [(''status'', PStr ''error''), (''error'', PStr msg)]"
| "substitute_exception (Returned v) = v"
| "substitute_exception (RaisedBase msg) = PBaseException msg"

text \<open>
  Lines 80 to 83: \<^verbatim>\<open>all(c.get("status") in ("healthy", "not_configured") for c in ...)\<close>.
  \<^verbatim>\<open>all\<close> consumes the generator from the left and stops at the first false element,
  so a value to the right of a failing one is never asked for its status.
\<close>

fun all_healthy :: "pyval list \<Rightarrow> py_error + bool" where
  "all_healthy [] = Inr True"
| "all_healthy (c # cs) =
     (case py_get c ''status'' of
        Inl e \<Rightarrow> Inl e
      | Inr s \<Rightarrow>
          if s = PStr ''healthy'' \<or> s = PStr ''not_configured''
          then all_healthy cs
          else Inr False)"

text \<open>
  \<open>hourly_health_check\<close>, lines 56 to 93. The two gathered probe results, the text of
  \<^verbatim>\<open>utc_now().isoformat()\<close> and the logger are passed in; the task returns its result
  (or the exception that escapes it) and the logger after its records.
\<close>

definition hourly_health_check ::
  "gathered \<Rightarrow> gathered \<Rightarrow> string \<Rightarrow> logger \<Rightarrow> (py_error + pydict) \<times> logger" where
  "hourly_health_check db_res redis_res now lg =
     (let lg1 = emit ''info'' ''Starting hourly health check'' None lg;
          db_check = substitute_exception db_res;
          redis_check = substitute_exception redis_res;
          checks = [(''database'', db_check), (''redis'', redis_check)]
      in case all_healthy (map snd checks) of
           Inl e \<Rightarrow> (Inl e, lg1)
         | Inr ok \<Rightarrow>
             (let result = [(''status'', PStr (if ok then ''healthy'' else ''degraded'')),
                            (''checks'', PDict checks),
                            (''checked_at'', PStr now)];
                  log_level = (if ok then ''info'' else ''warning'')
              in (Inr result, emit log_level ''Hourly health check completed'' (Some result) lg1)))"

text \<open>
  The probes are declared to return a mapping or to raise: a gathered result is
  well formed when it is a raised instance of \<^verbatim>\<open>Exception\<close> or a returned dictionary.
\<close>

fun probe_outcome :: "gathered \<Rightarrow> bool" where
  "probe_outcome (Raised msg) = True"
| "probe_outcome (Returned (PDict d)) = True"
| "probe_outcome (Returned v) = False"
| "probe_outcome (RaisedBase msg) = False"

text \<open>The status field of an outcome, \<open>None\<close> when the outcome has none.\<close>

fun status_field :: "pyval \<Rightarrow> pyval option" where
  "status_field (PDict d) = map_of d ''status''"
| "status_field v = None"

definition passing :: "pyval option set" where
  "passing = {Some (PStr ''healthy''), Some (PStr ''not_configured'')}"

text \<open>Reading a task's outcome: the folded status and one entry of the checks mapping.\<close>

definition folded_status :: "(py_error + pydict) \<times> logger \<Rightarrow> pyval option" where
  "folded_status res = (case fst res of Inl e \<Rightarrow> None | Inr r \<Rightarrow> map_of r ''status'')"

definition check_entry :: "(py_error + pydict) \<times> logger \<Rightarrow> string \<Rightarrow> pyval option" where
  "check_entry res name =
     (case fst res of
        Inl e \<Rightarrow> None
      | Inr r \<Rightarrow> (case map_of r ''checks'' of Some (PDict cs) \<Rightarrow> map_of cs name | _ \<Rightarrow> None))"

section \<open>The task table\<close>

text \<open>
  \<^verbatim>\<open>d[k] = v\<close> on a dictionary: a key already present keeps its position and takes the
  new value, a new key goes to the end. A dictionary display
  \<^verbatim>\<open>{k1: v1, k2: v2, ...}\<close> stores its items from left to right in the same way.
\<close>

fun py_setitem :: "('k \<times> 'v) list \<Rightarrow> 'k \<Rightarrow> 'v \<Rightarrow> ('k \<times> 'v) list" where
  "py_setitem [] k v = [(k, v)]"
| "py_setitem ((k', v') # d) k v =
     (if k' = k then (k', v) # d else (k', v') # py_setitem d k v)"

definition py_dict_display :: "('k \<times> 'v) list \<Rightarrow> ('k \<times> 'v) list" where
  "py_dict_display items = foldl (\<lambda>d (k, v). py_setitem d k v) [] items"

text \<open>
  One entry of \<open>SCHEDULED_TASKS\<close>. The key \<^verbatim>\<open>"max_retries"\<close> is optional; the task
  function is any value of type \<open>'f\<close>.
\<close>

record 'f task_config =
  cfg_function :: 'f
  cfg_schedule :: "pydict list"
  cfg_retry_on_error :: bool
  cfg_max_retries :: "int option"
  cfg_description :: string

datatype task_function =
  Daily_cleanup | Hourly_health_check | Weekly_report_generation | Metrics_aggregation

definition SCHEDULED_TASKS :: "(string \<times> task_function task_config) list" where
  "SCHEDULED_TASKS = py_dict_display
     [(''daily_cleanup'',
         \<lparr>cfg_function = Daily_cleanup,
          cfg_schedule = [[(''cron'', PStr ''0 2 * * *''),
                           (''kwargs'', PDict [(''older_than_days'', PInt 30)])]],
          cfg_retry_on_error = False,
          cfg_max_retries = None,
          cfg_description = ''Clean up expired records daily at 2:00 AM UTC''\<rparr>),
      (''hourly_health_check'',
         \<lparr>cfg_function = Hourly_health_check,
          cfg_schedule = [[(''cron'', PStr ''0 * * * *'')]],
          cfg_retry_on_error = False,
          cfg_max_retries = None,
          cfg_description = ''Check external service health every hour''\<rparr>),
      (''weekly_report_generation'',
         \<lparr>cfg_function = Weekly_report_generation,
          cfg_schedule = [[(''cron'', PStr ''0 6 * * 0'')]],
          cfg_retry_on_error = True,
          cfg_max_retries = Some 2,
          cfg_description = ''Generate weekly summary reports on Sunday''\<rparr>),
      (''metrics_aggregation'',
         \<lparr>cfg_function = Metrics_aggregation,
          cfg_schedule = [[(''cron'', PStr ''*/15 * * * *''),
                           (''kwargs'', PDict [(''interval_minutes'', PInt 15)])]],
          cfg_retry_on_error = False,
          cfg_max_retries = None,
          cfg_description = ''Aggregate metrics every 15 minutes''\<rparr>)]"

section \<open>Registration with the broker\<close>

text \<open>
  The keyword arguments \<open>register_scheduled_tasks\<close> builds for \<^verbatim>\<open>broker.task\<close>
  (lines 187 to 194); \<^verbatim>\<open>max_retries\<close> is passed only when the table entry has it.
\<close>

record task_kwargs =
  task_name :: string
  schedule :: "pydict list"
  retry_on_error :: bool
  max_retries :: "int option"

type_synonym 'f registered_task = "task_kwargs \<times> 'f"

text \<open>
  Modelled from the spec: \<^verbatim>\<open>get_broker\<close> and the broker's \<^verbatim>\<open>task\<close> method
  (\<^verbatim>\<open>modules.backend.tasks.broker\<close>) are missing from the sources. Following the
  spec's broker adapter, \<^verbatim>\<open>broker.task(**task_kwargs)(function)\<close> wraps the function
  with its name, schedule list and retry settings and registers the wrapped task. The
  broker is the list of the registrations it has accepted, oldest first. Whether the
  broker raises on a registration is its own affair: \<open>refuse\<close> gives the exception it
  raises for given keyword arguments, if any, and a refused call registers nothing.
\<close>

type_synonym 'f broker = "'f registered_task list"

definition broker_task ::
  "(task_kwargs \<Rightarrow> 'e option) \<Rightarrow> task_kwargs \<Rightarrow> 'f \<Rightarrow> 'f broker
     \<Rightarrow> ('e + 'f registered_task) \<times> 'f broker" where
  "broker_task refuse kw f b =
     (case refuse kw of
        Some err \<Rightarrow> (Inl err, b)
      | None \<Rightarrow> (Inr (kw, f), b @ [(kw, f)]))"

text \<open>
  The loop of lines 186 to 196 over \<^verbatim>\<open>SCHEDULED_TASKS.items()\<close>. An exception of
  \<^verbatim>\<open>broker.task\<close> leaves the loop at once; the broker stays as the calls before left it.
\<close>

fun register_loop ::
  "(task_kwargs \<Rightarrow> 'e option) \<Rightarrow> (string \<times> 'f task_config) list \<Rightarrow> 'f broker
     \<Rightarrow> (string \<times> 'f registered_task) list
     \<Rightarrow> ('e + (string \<times> 'f registered_task) list) \<times> 'f broker" where
  "register_loop refuse [] b registered = (Inr registered, b)"
| "register_loop refuse ((name, config) # rest) b registered =
     (let kw = \<lparr>task_name = name,
                schedule = cfg_schedule config,
                retry_on_error = cfg_retry_on_error config,
                max_retries = cfg_max_retries config\<rparr>
      in case broker_task refuse kw (cfg_function config) b of
           (Inl err, b') \<Rightarrow> (Inl err, b')
         | (Inr t, b') \<Rightarrow> register_loop refuse rest b' (py_setitem registered name t))"

text \<open>
  \<open>register_scheduled_tasks\<close>, lines 171 to 203, with the table, the broker and the
  logger passed in. It returns the dictionary \<^verbatim>\<open>registered\<close> or the exception that
  escaped, the broker and the logger.
\<close>

definition register_scheduled_tasks ::
  "(task_kwargs \<Rightarrow> 'e option) \<Rightarrow> (string \<times> 'f task_config) list \<Rightarrow> 'f broker \<Rightarrow> logger
     \<Rightarrow> ('e + (string \<times> 'f registered_task) list) \<times> 'f broker \<times> logger" where
  "register_scheduled_tasks refuse table b lg =
     (case register_loop refuse table b [] of
        (Inl err, b') \<Rightarrow> (Inl err, b', lg)
      | (Inr registered, b') \<Rightarrow>
          (Inr registered, b',
           emit ''info'' ''Scheduled tasks registered''
             (Some [(''task_count'', PInt (int (length registered))),
                    (''tasks'', PList (map (\<lambda>(name, t). PStr name) registered))])
             lg))"

text \<open>The registration a table entry asks of the broker.\<close>

definition wrap :: "string \<times> 'f task_config \<Rightarrow> 'f registered_task" where
  "wrap entry =
     (\<lparr>task_name = fst entry,
       schedule = cfg_schedule (snd entry),
       retry_on_error = cfg_retry_on_error (snd entry),
       max_retries = cfg_max_retries (snd entry)\<rparr>,
      cfg_function (snd entry))"

section \<open>Retry policy\<close>

text \<open>
  Modelled from the spec: the runtime that executes a registered task and enforces its
  retry settings is missing from the sources, which only hand \<^verbatim>\<open>retry_on_error\<close> and
  \<^verbatim>\<open>max_retries\<close> to the broker. The spec gives the state machine of one firing:
  Pending, Running, then Succeeded or Failed; from Failed back to Pending with one more
  attempt when the policy is enabled and \<open>attempts < maxRetries\<close>, to FailedTerminal
  otherwise. \<open>attempts\<close> starts at 0 for each firing. \<open>executions\<close> counts how often the
  unit has been run in this firing; \<open>unit i\<close> tells whether run number \<open>i\<close> (from 0)
  of the unit succeeds.
\<close>

record retry_policy =
  enabled :: bool
  maxRetries :: nat

datatype firing_state = Pending | Running | Succeeded | Failed | FailedTerminal

record firing =
  state :: firing_state
  attempts :: nat
  executions :: nat

definition new_firing :: firing where
  "new_firing = \<lparr>state = Pending, attempts = 0, executions = 0\<rparr>"

definition terminal :: "firing \<Rightarrow> bool" where
  "terminal f = (state f = Succeeded \<or> state f = FailedTerminal)"

definition step :: "retry_policy \<Rightarrow> (nat \<Rightarrow> bool) \<Rightarrow> firing \<Rightarrow> firing" where
  "step p unit f =
     (case state f of
        Pending \<Rightarrow> f\<lparr>state := Running\<rparr>
      | Running \<Rightarrow>
          f\<lparr>state := (if unit (executions f) then Succeeded else Failed),
            executions := executions f + 1\<rparr>
      | Failed \<Rightarrow>
          if enabled p \<and> attempts f < maxRetries p
          then f\<lparr>state := Pending, attempts := attempts f + 1\<rparr>
          else f\<lparr>state := FailedTerminal\<rparr>
      | Succeeded \<Rightarrow> f
      | FailedTerminal \<Rightarrow> f)"

definition rank :: "firing_state \<Rightarrow> nat" where
  "rank s = (case s of Pending \<Rightarrow> 3 | Running \<Rightarrow> 2 | Failed \<Rightarrow> 1 | _ \<Rightarrow> 0)"

function run_firing :: "retry_policy \<Rightarrow> (nat \<Rightarrow> bool) \<Rightarrow> firing \<Rightarrow> firing" where
  "run_firing p unit f = (if terminal f then f else run_firing p unit (step p unit f))"
  by pat_completeness auto
termination
  by (relation "measure (\<lambda>(p, unit, f). 4 * (maxRetries p - attempts f) + rank (state f))")
     (auto simp: terminal_def step_def rank_def split: firing_state.splits)

declare run_firing.simps [simp del]

section \<open>Concrete inputs\<close>

text \<open>
  Two brokers: one that accepts every registration, as a broker that only stores the
  schedule labels does, and one that raises for the task of a given name.
\<close>

definition accept_all :: "task_kwargs \<Rightarrow> string option" where
  "accept_all kw = None"

definition refuse_task :: "string \<Rightarrow> task_kwargs \<Rightarrow> string option" where
  "refuse_task name kw =
     (if task_name kw = name then Some (''InvalidScheduleError: '' @ name) else None)"

text \<open>
  A table of three tasks whose second task has a cron expression of four fields, with
  an hour of 25.
\<close>

definition entry_first :: "string \<times> task_function task_config" where
  "entry_first =
     (''first'',
      \<lparr>cfg_function = Daily_cleanup,
       cfg_schedule = [[(''cron'', PStr ''0 2 * * *'')]],
       cfg_retry_on_error = False,
       cfg_max_retries = None,
       cfg_description = ''first''\<rparr>)"

definition entry_second :: "string \<times> task_function task_config" where
  "entry_second =
     (''second'',
      \<lparr>cfg_function = Hourly_health_check,
       cfg_schedule = [[(''cron'', PStr ''0 25 * *'')]],
       cfg_retry_on_error = True,
       cfg_max_retries = Some 2,
       cfg_description = ''second''\<rparr>)"

definition entry_third :: "string \<times> task_function task_config" where
  "entry_third =
     (''third'',
      \<lparr>cfg_function = Metrics_aggregation,
       cfg_schedule = [[(''cron'', PStr ''*/15 * * * *'')]],
       cfg_retry_on_error = False,
       cfg_max_retries = None,
       cfg_description = ''third''\<rparr>)"

definition malformed_table :: "(string \<times> task_function task_config) list" where
  "malformed_table = py_dict_display [entry_first, entry_second, entry_third]"

text \<open>A display that gives the name of its first entry a second time.\<close>

definition duplicate_display :: "(string \<times> task_function task_config) list" where
  "duplicate_display = py_dict_display [entry_first, entry_third, (''first'', snd entry_second)]"

definition healthy_outcome :: gathered where
  "healthy_outcome = Returned (PDict [(''status'', PStr ''healthy'')])"


text \<open>Two units: one whose every run fails, one whose second run is the only success.\<close>

definition always_fails :: "nat \<Rightarrow> bool" where
  "always_fails i = False"

definition succeeds_second :: "nat \<Rightarrow> bool" where
  "succeeds_second i = (i = 1)"

section \<open>Properties of the health aggregator\<close>

lemma all_healthy_pair:
  "all_healthy [PDict a, PDict b] =
     Inr (map_of a ''status'' \<in> passing \<and> map_of b ''status'' \<in> passing)"
  by (auto simp: passing_def split: option.splits)

lemma substitute_exception_dict:
  assumes "probe_outcome g"
  shows "\<exists>d. substitute_exception g = PDict d"
  using assms by (cases g rule: probe_outcome.cases) auto

lemma hourly_health_check_result:
  assumes "probe_outcome db" and "probe_outcome rd"
  shows "fst (hourly_health_check db rd now lg) =
     Inr [(''status'', PStr (if status_field (substitute_exception db) \<in> passing \<and>
                               status_field (substitute_exception rd) \<in> passing
                            then ''healthy'' else ''degraded'')),
          (''checks'', PDict [(''database'', substitute_exception db),
                             (''redis'', substitute_exception rd)]),
          (''checked_at'', PStr now)]"
proof -
  obtain a where a: "substitute_exception db = PDict a"
    using substitute_exception_dict [OF assms(1)] by blast
  obtain b where b: "substitute_exception rd = PDict b"
    using substitute_exception_dict [OF assms(2)] by blast
  show ?thesis
    unfolding hourly_health_check_def Let_def
    by (simp only: a b list.map snd_conv all_healthy_pair sum.case fst_conv status_field.simps)
qed

lemma hourly_health_check_log:
  assumes "probe_outcome db" and "probe_outcome rd"
  shows "snd (hourly_health_check db rd now lg) =
     lg @ [\<lparr>level = ''info'', message = ''Starting hourly health check'', extra = None\<rparr>,
           \<lparr>level = (if status_field (substitute_exception db) \<in> passing \<and>
                        status_field (substitute_exception rd) \<in> passing
                     then ''info'' else ''warning''),
            message = ''Hourly health check completed'',
            extra = (case fst (hourly_health_check db rd now lg) of
                       Inl e \<Rightarrow> None | Inr r \<Rightarrow> Some r)\<rparr>]"
proof -
  obtain a where a: "substitute_exception db = PDict a"
    using substitute_exception_dict [OF assms(1)] by blast
  obtain b where b: "substitute_exception rd = PDict b"
    using substitute_exception_dict [OF assms(2)] by blast
  show ?thesis
    unfolding hourly_health_check_def Let_def emit_def
    by (simp add: a b all_healthy_pair del: all_healthy.simps)
qed

text \<open>
  A returned value that is not a mapping has no \<^verbatim>\<open>get\<close>: the task then ends with an
  AttributeError, unless a failing outcome to its left has already stopped \<^verbatim>\<open>all\<close>.
\<close>

lemma hourly_health_check_not_a_mapping:
  "fst (hourly_health_check (Returned PNone) rd now lg) = Inl (AttributeError ''get'')"
  by (simp add: hourly_health_check_def)

lemma hourly_health_check_short_circuit:
  "fst (hourly_health_check (Raised msg) (Returned PNone) now lg) =
     Inr [(''status'', PStr ''degraded''),
          (''checks'', PDict [(''database'', PDict [(''status'', PStr ''error''),
                                                  (''error'', PStr msg)]),
                             (''redis'', PNone)]),
          (''checked_at'', PStr now)]"
  by (simp add: hourly_health_check_def Let_def)

text \<open>
  C1. Whenever each probe returned a mapping or raised, the folded status of the result
  is \<^verbatim>\<open>"healthy"\<close> exactly when the status field of both outcomes is
  \<^verbatim>\<open>"healthy"\<close> or \<^verbatim>\<open>"not_configured"\<close>, and \<^verbatim>\<open>"degraded"\<close> otherwise; two probes
  that both report \<^verbatim>\<open>"not_configured"\<close> fold to \<^verbatim>\<open>"healthy"\<close>.
\<close>

theorem hourly_health_check_fold:
  "(probe_outcome db \<and> probe_outcome rd \<longrightarrow>
      folded_status (hourly_health_check db rd now lg) =
        Some (PStr (if status_field (substitute_exception db) \<in> passing \<and>
                       status_field (substitute_exception rd) \<in> passing
                    then ''healthy'' else ''degraded''))) \<and>
   (map_of a ''status'' = Some (PStr ''not_configured'') \<and>
    map_of b ''status'' = Some (PStr ''not_configured'') \<longrightarrow>
      folded_status (hourly_health_check (Returned (PDict a)) (Returned (PDict b)) now lg) =
        Some (PStr ''healthy''))"
proof (intro conjI impI)
  assume "probe_outcome db \<and> probe_outcome rd"
  then show "folded_status (hourly_health_check db rd now lg) =
        Some (PStr (if status_field (substitute_exception db) \<in> passing \<and>
                       status_field (substitute_exception rd) \<in> passing
                    then ''healthy'' else ''degraded''))"
    by (simp add: folded_status_def hourly_health_check_result)
next
  assume h: "map_of a ''status'' = Some (PStr ''not_configured'') \<and>
    map_of b ''status'' = Some (PStr ''not_configured'')"
  have "probe_outcome (Returned (PDict a))" and "probe_outcome (Returned (PDict b))"
    by simp_all
  then show "folded_status (hourly_health_check (Returned (PDict a)) (Returned (PDict b)) now lg) =
        Some (PStr ''healthy'')"
    using h by (simp add: folded_status_def hourly_health_check_result passing_def)
qed

theorem hourly_health_check_fold_witness:
  "probe_outcome (Returned (PDict [(''status'', PStr ''healthy'')])) \<and>
   probe_outcome (Returned (PDict [(''status'', PStr ''unhealthy'')])) \<and>
   folded_status (hourly_health_check (Returned (PDict [(''status'', PStr ''healthy'')]))
                    (Returned (PDict [(''status'', PStr ''unhealthy'')])) ''t'' []) =
     Some (PStr ''degraded'') \<and>
   folded_status (hourly_health_check (Returned (PDict [(''status'', PStr ''not_configured'')]))
                    (Returned (PDict [(''status'', PStr ''not_configured'')])) ''t'' []) =
     Some (PStr ''healthy'')"
  using hourly_health_check_fold
          [of "Returned (PDict [(''status'', PStr ''healthy'')])"
              "Returned (PDict [(''status'', PStr ''unhealthy'')])" "''t''" "[]"
              "[(''status'', PStr ''not_configured'')]" "[(''status'', PStr ''not_configured'')]"]
  by (simp add: passing_def)



text \<open>
  C3, as amended. Whenever each probe returned a mapping or raised, the task returns a
  mapping of exactly three fields: \<^verbatim>\<open>status\<close>, holding the folded value
  \<^verbatim>\<open>"healthy"\<close> or \<^verbatim>\<open>"degraded"\<close>; \<^verbatim>\<open>checks\<close>, mapping \<^verbatim>\<open>database\<close> and
  \<^verbatim>\<open>redis\<close> to their outcomes; and \<^verbatim>\<open>checked_at\<close>, the time of the check.
\<close>

theorem hourly_health_check_returns:
  assumes "probe_outcome db" and "probe_outcome rd"
  shows "\<exists>s. (s = ''healthy'' \<or> s = ''degraded'') \<and>
           fst (hourly_health_check db rd now lg) =
             Inr [(''status'', PStr s),
                  (''checks'', PDict [(''database'', substitute_exception db),
                                     (''redis'', substitute_exception rd)]),
                  (''checked_at'', PStr now)]"
proof (cases "status_field (substitute_exception db) \<in> passing \<and>
              status_field (substitute_exception rd) \<in> passing")
  case True
  then show ?thesis
    using hourly_health_check_result [OF assms, of now lg]
    by (intro exI [of _ "''healthy''"]) simp
next
  case False
  then show ?thesis
    using hourly_health_check_result [OF assms, of now lg]
    by (intro exI [of _ "''degraded''"]) auto
qed

theorem hourly_health_check_returns_witness:
  "probe_outcome healthy_outcome \<and>
   fst (hourly_health_check healthy_outcome healthy_outcome ''2024-01-01T00:00:00+00:00'' []) =
     Inr [(''status'', PStr ''healthy''),
          (''checks'', PDict [(''database'', PDict [(''status'', PStr ''healthy'')]),
                             (''redis'', PDict [(''status'', PStr ''healthy'')])]),
          (''checked_at'', PStr ''2024-01-01T00:00:00+00:00'')]"
proof -
  have h: "probe_outcome healthy_outcome" by (simp add: healthy_outcome_def)
  from hourly_health_check_returns [OF h h, of "''2024-01-01T00:00:00+00:00''" "[]"]
  obtain s where
    "fst (hourly_health_check healthy_outcome healthy_outcome ''2024-01-01T00:00:00+00:00'' []) =
       Inr [(''status'', PStr s),
            (''checks'', PDict [(''database'', substitute_exception healthy_outcome),
                               (''redis'', substitute_exception healthy_outcome)]),
            (''checked_at'', PStr ''2024-01-01T00:00:00+00:00'')]"
    by blast
  moreover have
    "map_of (projr (fst (hourly_health_check healthy_outcome healthy_outcome
        ''2024-01-01T00:00:00+00:00'' []))) ''status'' = Some (PStr ''healthy'')"
    by (simp add: healthy_outcome_def hourly_health_check_def Let_def)
  ultimately show ?thesis
    using h by (simp add: healthy_outcome_def)
qed

text \<open>
  A status of \<^verbatim>\<open>"completed"\<close> is not what the task returns: with two healthy probes
  the status field of the returned mapping is \<^verbatim>\<open>"healthy"\<close>, and the mapping has the
  fields \<^verbatim>\<open>status\<close>, \<^verbatim>\<open>checks\<close> and \<^verbatim>\<open>checked_at\<close> only.
\<close>

theorem hourly_health_check_completed_counterexample:
  "folded_status (hourly_health_check healthy_outcome healthy_outcome
       ''2024-01-01T00:00:00+00:00'' []) = Some (PStr ''healthy'') \<and>
   folded_status (hourly_health_check healthy_outcome healthy_outcome
       ''2024-01-01T00:00:00+00:00'' []) \<noteq> Some (PStr ''completed'') \<and>
   map fst (projr (fst (hourly_health_check healthy_outcome healthy_outcome
       ''2024-01-01T00:00:00+00:00'' []))) = [''status'', ''checks'', ''checked_at'']"
  by (simp add: folded_status_def healthy_outcome_def hourly_health_check_def Let_def)

text \<open>
  C5. Whenever each probe returned a mapping or raised, the task adds two records to the
  log: the start record and then one completion record, whose severity is
  \<^verbatim>\<open>"info"\<close> when the folded status is \<^verbatim>\<open>"healthy"\<close> and \<^verbatim>\<open>"warning"\<close> when it is
  \<^verbatim>\<open>"degraded"\<close>, and whose \<^verbatim>\<open>extra\<close> is the returned result.
\<close>

theorem hourly_health_check_severity:
  assumes "probe_outcome db" and "probe_outcome rd"
  shows "\<exists>r s. fst (hourly_health_check db rd now lg) = Inr r \<and>
           folded_status (hourly_health_check db rd now lg) = Some (PStr s) \<and>
           (s = ''healthy'' \<or> s = ''degraded'') \<and>
           snd (hourly_health_check db rd now lg) =
             lg @ [\<lparr>level = ''info'', message = ''Starting hourly health check'',
                    extra = None\<rparr>,
                   \<lparr>level = (if s = ''healthy'' then ''info'' else ''warning''),
                    message = ''Hourly health check completed'', extra = Some r\<rparr>] \<and>
           length (filter (\<lambda>rec. message rec = ''Hourly health check completed'')
                     (drop (length lg) (snd (hourly_health_check db rd now lg)))) = 1"
proof -
  let ?ok = "status_field (substitute_exception db) \<in> passing \<and>
             status_field (substitute_exception rd) \<in> passing"
  let ?s = "if ?ok then ''healthy'' else ''degraded''"
  note res = hourly_health_check_result [OF assms, of now lg]
  note lg = hourly_health_check_log [OF assms, of now lg]
  have st: "folded_status (hourly_health_check db rd now lg) = Some (PStr ?s)"
    by (simp add: folded_status_def res)
  have lv: "(if ?s = ''healthy'' then ''info'' else ''warning'') =
            (if ?ok then ''info'' else ''warning'')"
    by simp
  show ?thesis
    apply (rule exI [of _ "[(''status'', PStr ?s),
          (''checks'', PDict [(''database'', substitute_exception db),
                             (''redis'', substitute_exception rd)]),
          (''checked_at'', PStr now)]"])
    apply (rule exI [of _ ?s])
    apply (intro conjI)
        apply (rule res)
       apply (rule st)
      apply simp
     apply (subst lg, simp only: res sum.case lv)
    apply (subst lg, simp)
    done
qed

theorem hourly_health_check_severity_witness:
  "probe_outcome (Raised ''connection refused'') \<and>
   probe_outcome (Returned (PDict [(''status'', PStr ''healthy'')])) \<and>
   map level (snd (hourly_health_check (Raised ''connection refused'')
                     (Returned (PDict [(''status'', PStr ''healthy'')])) ''t'' [])) =
     [''info'', ''warning'']"
proof -
  have a: "probe_outcome (Raised ''connection refused'')"
    and b: "probe_outcome (Returned (PDict [(''status'', PStr ''healthy'')]))"
    by simp_all
  from hourly_health_check_severity [OF a b, of "''t''" "[]"]
  obtain r s where
    st: "folded_status (hourly_health_check (Raised ''connection refused'')
           (Returned (PDict [(''status'', PStr ''healthy'')])) ''t'' []) = Some (PStr s)"
    and lg: "snd (hourly_health_check (Raised ''connection refused'')
           (Returned (PDict [(''status'', PStr ''healthy'')])) ''t'' []) =
         [] @ [\<lparr>level = ''info'', message = ''Starting hourly health check'', extra = None\<rparr>,
               \<lparr>level = (if s = ''healthy'' then ''info'' else ''warning''),
                message = ''Hourly health check completed'', extra = Some r\<rparr>]"
    by blast
  have "folded_status (hourly_health_check (Raised ''connection refused'')
           (Returned (PDict [(''status'', PStr ''healthy'')])) ''t'' []) = Some (PStr ''degraded'')"
    by (simp add: folded_status_def hourly_health_check_def Let_def)
  with st have "s = ''degraded''" by simp
  with lg a b show ?thesis by simp
qed

text \<open>
  C9. Whenever each probe returned a mapping or raised, exchanging the database outcome
  and the redis outcome leaves the folded status unchanged.
\<close>

theorem hourly_health_check_commutative:
  assumes "probe_outcome a" and "probe_outcome b"
  shows "folded_status (hourly_health_check a b now lg) =
           folded_status (hourly_health_check b a now lg) \<and>
         folded_status (hourly_health_check a b now lg) \<noteq> None"
  using hourly_health_check_result [OF assms, of now lg]
        hourly_health_check_result [OF assms(2) assms(1), of now lg]
  by (simp add: folded_status_def conj_commute)

theorem hourly_health_check_commutative_witness:
  "probe_outcome (Returned (PDict [(''status'', PStr ''unhealthy'')])) \<and>
   probe_outcome (Returned (PDict [(''status'', PStr ''healthy'')])) \<and>
   folded_status (hourly_health_check (Returned (PDict [(''status'', PStr ''unhealthy'')]))
                    (Returned (PDict [(''status'', PStr ''healthy'')])) ''t'' []) =
   folded_status (hourly_health_check (Returned (PDict [(''status'', PStr ''healthy'')]))
                    (Returned (PDict [(''status'', PStr ''unhealthy'')])) ''t'' [])"
proof -
  have a: "probe_outcome (Returned (PDict [(''status'', PStr ''unhealthy'')]))"
    and b: "probe_outcome (Returned (PDict [(''status'', PStr ''healthy'')]))"
    by simp_all
  show ?thesis
    using a b hourly_health_check_commutative [OF a b, of "''t''" "[]"] by simp
qed

text \<open>
  C10. When a probe returns a mapping with no \<^verbatim>\<open>"status"\<close> key, or with a status other
  than \<^verbatim>\<open>"healthy"\<close> and \<^verbatim>\<open>"not_configured"\<close>, and the other probe returned a mapping
  or raised, the task returns a result whose folded status is \<^verbatim>\<open>"degraded"\<close> and whose
  checks hold the returned mapping unchanged; this holds in either position.
\<close>

theorem hourly_health_check_unknown_status:
  assumes "map_of d ''status'' \<notin> passing" and "probe_outcome other"
  shows "folded_status (hourly_health_check (Returned (PDict d)) other now lg) =
           Some (PStr ''degraded'') \<and>
         check_entry (hourly_health_check (Returned (PDict d)) other now lg) ''database'' =
           Some (PDict d) \<and>
         folded_status (hourly_health_check other (Returned (PDict d)) now lg) =
           Some (PStr ''degraded'') \<and>
         check_entry (hourly_health_check other (Returned (PDict d)) now lg) ''redis'' =
           Some (PDict d)"
proof -
  have d: "probe_outcome (Returned (PDict d))" by simp
  note res = hourly_health_check_result [OF d assms(2), of now lg]
    hourly_health_check_result [OF assms(2) d, of now lg]
  show ?thesis
    using assms(1) by (simp add: folded_status_def check_entry_def res)
qed

theorem hourly_health_check_unknown_status_witness:
  "map_of [(''latency_ms'', PInt 12)] ''status'' \<notin> passing \<and>
   map_of [(''status'', PStr ''starting'')] ''status'' \<notin> passing \<and>
   probe_outcome (Returned (PDict [(''status'', PStr ''healthy'')])) \<and>
   folded_status (hourly_health_check (Returned (PDict [(''latency_ms'', PInt 12)]))
                    (Returned (PDict [(''status'', PStr ''healthy'')])) ''t'' []) =
     Some (PStr ''degraded'') \<and>
   check_entry (hourly_health_check (Returned (PDict [(''status'', PStr ''healthy'')]))
                  (Returned (PDict [(''status'', PStr ''starting'')])) ''t'' []) ''redis'' =
     Some (PDict [(''status'', PStr ''starting'')])"
proof -
  have a: "map_of [(''latency_ms'', PInt 12)] ''status'' \<notin> passing"
    and b: "map_of [(''status'', PStr ''starting'')] ''status'' \<notin> passing"
    and c: "probe_outcome (Returned (PDict [(''status'', PStr ''healthy'')]))"
    by (simp_all add: passing_def)
  show ?thesis
    using a b c hourly_health_check_unknown_status [OF a c, of "''t''" "[]"]
      hourly_health_check_unknown_status [OF b c, of "''t''" "[]"]
    by simp
qed


section \<open>Properties of registration\<close>

lemma py_setitem_fresh:
  "k \<notin> fst ` set d \<Longrightarrow> py_setitem d k v = d @ [(k, v)]"
  by (induction d) auto

lemma py_setitem_keys_present:
  "k \<in> fst ` set d \<Longrightarrow> map fst (py_setitem d k v) = map fst d"
  by (induction d) force+

lemma py_setitem_lookup: "map_of (py_setitem d k v) k = Some v"
  by (induction d) auto

lemma py_setitem_other: "k' \<noteq> k \<Longrightarrow> map_of (py_setitem d k v) k' = map_of d k'"
  by (induction d) auto

lemma py_setitem_keys: "set (map fst (py_setitem d k v)) = insert k (set (map fst d))"
proof (induction d)
  case Nil
  show ?case by simp
next
  case (Cons kv d)
  obtain k' v' where kv: "kv = (k', v')" by (cases kv)
  from Cons.IH have ih: "fst ` set (py_setitem d k v) = insert k (fst ` set d)" by simp
  show ?case
    by (cases "k' = k") (simp_all add: kv ih insert_commute)
qed

lemma py_setitem_distinct:
  "distinct (map fst d) \<Longrightarrow> distinct (map fst (py_setitem d k v))"
proof (induction d)
  case Nil
  then show ?case by simp
next
  case (Cons kv d)
  obtain k' v' where kv: "kv = (k', v')" by (cases kv)
  from Cons.prems have fresh: "k' \<notin> set (map fst d)" and d: "distinct (map fst d)"
    by (simp_all add: kv)
  show ?case
  proof (cases "k' = k")
    case True
    with Cons.prems show ?thesis by (simp add: kv)
  next
    case False
    have "k' \<notin> set (map fst (py_setitem d k v))"
      using fresh False by (simp only: py_setitem_keys) simp
    with False Cons.IH [OF d] show ?thesis by (simp add: kv)
  qed
qed

lemma fold_setitem_keys_distinct:
  "distinct (map fst acc) \<Longrightarrow>
   distinct (map fst (foldl (\<lambda>d (k, v). py_setitem d k v) acc items))"
proof (induction items arbitrary: acc)
  case Nil
  then show ?case by simp
next
  case (Cons kv items)
  obtain k v where kv: "kv = (k, v)" by (cases kv)
  show ?case
    using Cons.IH [OF py_setitem_distinct [OF Cons.prems, of k v]] by (simp add: kv)
qed

lemma register_loop_accepted:
  assumes "\<forall>entry \<in> set table. refuse (fst (wrap entry)) = None"
  shows "register_loop refuse table b registered =
           (Inr (foldl (\<lambda>r entry. py_setitem r (fst entry) (wrap entry)) registered table),
            b @ map wrap table)"
  using assms
proof (induction table arbitrary: b registered)
  case Nil
  then show ?case by simp
next
  case (Cons entry rest)
  obtain name config where entry: "entry = (name, config)" by (cases entry)
  from Cons.prems have "refuse (fst (wrap (name, config))) = None"
    and rest: "\<forall>e \<in> set rest. refuse (fst (wrap e)) = None"
    by (simp_all add: entry)
  then show ?case
    by (simp add: entry Cons.IH [OF rest] broker_task_def wrap_def Let_def)
qed

lemma register_loop_refused:
  assumes "\<forall>entry \<in> set pre. refuse (fst (wrap entry)) = None"
    and "refuse (fst (wrap bad)) = Some err"
  shows "register_loop refuse (pre @ bad # post) b registered = (Inl err, b @ map wrap pre)"
  using assms(1)
proof (induction pre arbitrary: b registered)
  case Nil
  obtain name config where bad: "bad = (name, config)" by (cases bad)
  from assms(2) show ?case
    by (simp add: bad broker_task_def wrap_def Let_def)
next
  case (Cons entry rest)
  obtain name config where entry: "entry = (name, config)" by (cases entry)
  from Cons.prems have "refuse (fst (wrap (name, config))) = None"
    and rest: "\<forall>e \<in> set rest. refuse (fst (wrap e)) = None"
    by (simp_all add: entry)
  then show ?case
    by (simp add: entry Cons.IH [OF rest] broker_task_def wrap_def Let_def)
qed

lemma fold_setitem_distinct:
  assumes "distinct (map fst table)" and "fst ` set table \<inter> fst ` set registered = {}"
  shows "foldl (\<lambda>r entry. py_setitem r (fst entry) (wrap entry)) registered table =
           registered @ map (\<lambda>entry. (fst entry, wrap entry)) table"
  using assms
proof (induction table arbitrary: registered)
  case Nil
  then show ?case by simp
next
  case (Cons entry rest)
  from Cons.prems have fresh: "fst entry \<notin> fst ` set registered" by auto
  have step: "py_setitem registered (fst entry) (wrap entry) = registered @ [(fst entry, wrap entry)]"
    by (rule py_setitem_fresh [OF fresh])
  from Cons.prems have d: "distinct (map fst rest)"
    and i: "fst ` set rest \<inter> fst ` set (registered @ [(fst entry, wrap entry)]) = {}"
    by auto
  show ?case
    by (simp add: step Cons.IH [OF d i])
qed

text \<open>
  C8. For a table with distinct names all of whose registrations the broker accepts,
  \<open>register_scheduled_tasks\<close> hands each entry to the broker exactly once, in table
  order, wrapped with its name, schedule list and retry settings; it returns one entry
  per definition, keyed by the task names in table order, and logs the number of
  definitions and their names.
\<close>

theorem register_scheduled_tasks_report:
  assumes "distinct (map fst table)"
    and "\<forall>entry \<in> set table. refuse (fst (wrap entry)) = None"
  shows "register_scheduled_tasks refuse table b lg =
           (Inr (map (\<lambda>entry. (fst entry, wrap entry)) table),
            b @ map wrap table,
            lg @ [\<lparr>level = ''info'', message = ''Scheduled tasks registered'',
                   extra = Some [(''task_count'', PInt (int (length table))),
                                 (''tasks'', PList (map (\<lambda>entry. PStr (fst entry)) table))]\<rparr>])"
proof -
  have "foldl (\<lambda>r entry. py_setitem r (fst entry) (wrap entry)) [] table =
          map (\<lambda>entry. (fst entry, wrap entry)) table"
    using fold_setitem_distinct [OF assms(1), of "[]"] by simp
  then show ?thesis
    by (simp add: register_scheduled_tasks_def register_loop_accepted [OF assms(2)]
        emit_def comp_def case_prod_beta)
qed

text \<open>
  At the table of the source all four tasks reach an accepting broker, in table order.
\<close>

lemma SCHEDULED_TASKS_names:
  "map fst SCHEDULED_TASKS =
     [''daily_cleanup'', ''hourly_health_check'', ''weekly_report_generation'',
      ''metrics_aggregation'']"
  by (simp add: SCHEDULED_TASKS_def py_dict_display_def)

theorem register_scheduled_tasks_report_witness:
  "distinct (map fst SCHEDULED_TASKS) \<and>
   map fst (projr (fst (register_scheduled_tasks accept_all SCHEDULED_TASKS [] []))) =
     [''daily_cleanup'', ''hourly_health_check'', ''weekly_report_generation'',
      ''metrics_aggregation''] \<and>
   map (task_name \<circ> fst) (fst (snd (register_scheduled_tasks accept_all SCHEDULED_TASKS [] []))) =
     [''daily_cleanup'', ''hourly_health_check'', ''weekly_report_generation'',
      ''metrics_aggregation''] \<and>
   map extra (snd (snd (register_scheduled_tasks accept_all SCHEDULED_TASKS [] []))) =
     [Some [(''task_count'', PInt 4),
            (''tasks'', PList [PStr ''daily_cleanup'', PStr ''hourly_health_check'',
                               PStr ''weekly_report_generation'', PStr ''metrics_aggregation''])]]"
proof -
  have d: "distinct (map fst SCHEDULED_TASKS)"
    by (simp add: SCHEDULED_TASKS_names)
  have a: "\<forall>entry \<in> set SCHEDULED_TASKS. accept_all (fst (wrap entry)) = None"
    by (simp add: accept_all_def)
  have len: "length SCHEDULED_TASKS = 4"
    using arg_cong [OF SCHEDULED_TASKS_names, of length] by simp
  have names: "map (\<lambda>entry. PStr (fst entry)) SCHEDULED_TASKS =
      [PStr ''daily_cleanup'', PStr ''hourly_health_check'',
       PStr ''weekly_report_generation'', PStr ''metrics_aggregation'']"
    using arg_cong [OF SCHEDULED_TASKS_names, of "map PStr"] by (simp add: comp_def)
  have wn: "map (\<lambda>x. task_name (fst (wrap x))) SCHEDULED_TASKS = map fst SCHEDULED_TASKS"
    by (simp add: wrap_def)
  show ?thesis
    using d register_scheduled_tasks_report [OF d a, of "[]" "[]"]
    by (simp add: comp_def len names wn SCHEDULED_TASKS_names
        del: distinct.simps)
qed

text \<open>
  C4, as amended. \<open>register_scheduled_tasks\<close> never looks at a cron expression and has
  no error of its own. When the broker accepts every entry, registration succeeds and
  every entry is registered, whatever its cron text. When the broker raises for an entry
  after accepting those before it, that exception is the outcome, nothing is logged, and
  the entries before it stay registered with the broker.
\<close>

theorem register_scheduled_tasks_no_rollback:
  "((\<forall>entry \<in> set table. refuse (fst (wrap entry)) = None) \<longrightarrow>
      \<not> isl (fst (register_scheduled_tasks refuse table b lg)) \<and>
      fst (snd (register_scheduled_tasks refuse table b lg)) = b @ map wrap table) \<and>
   ((\<forall>entry \<in> set pre. refuse (fst (wrap entry)) = None) \<and>
    refuse (fst (wrap bad)) = Some err \<longrightarrow>
      register_scheduled_tasks refuse (pre @ bad # post) b lg =
        (Inl err, b @ map wrap pre, lg))"
proof (intro conjI impI)
  assume a: "\<forall>entry \<in> set table. refuse (fst (wrap entry)) = None"
  show "\<not> isl (fst (register_scheduled_tasks refuse table b lg))"
    by (simp add: register_scheduled_tasks_def register_loop_accepted [OF a])
  show "fst (snd (register_scheduled_tasks refuse table b lg)) = b @ map wrap table"
    by (simp add: register_scheduled_tasks_def register_loop_accepted [OF a])
next
  assume "(\<forall>entry \<in> set pre. refuse (fst (wrap entry)) = None) \<and>
    refuse (fst (wrap bad)) = Some err"
  then have p: "\<forall>entry \<in> set pre. refuse (fst (wrap entry)) = None"
    and r: "refuse (fst (wrap bad)) = Some err"
    by simp_all
  show "register_scheduled_tasks refuse (pre @ bad # post) b lg =
        (Inl err, b @ map wrap pre, lg)"
    by (simp add: register_scheduled_tasks_def register_loop_refused [OF p r])
qed

lemma malformed_table_entries: "malformed_table = [entry_first] @ entry_second # [entry_third]"
  by (simp add: malformed_table_def py_dict_display_def entry_first_def entry_second_def
      entry_third_def)

theorem register_scheduled_tasks_no_rollback_witness:
  "register_scheduled_tasks (refuse_task ''second'') malformed_table [] [] =
     (Inl ''InvalidScheduleError: second'', [wrap entry_first], []) \<and>
   \<not> isl (fst (register_scheduled_tasks accept_all malformed_table [] [])) \<and>
   fst (snd (register_scheduled_tasks accept_all malformed_table [] [])) =
     [wrap entry_first, wrap entry_second, wrap entry_third]"
proof -
  have p: "\<forall>entry \<in> set [entry_first]. refuse_task ''second'' (fst (wrap entry)) = None"
    by (simp add: refuse_task_def wrap_def entry_first_def)
  have r: "refuse_task ''second'' (fst (wrap entry_second)) = Some ''InvalidScheduleError: second''"
    by (simp add: refuse_task_def wrap_def entry_second_def)
  have a: "\<forall>entry \<in> set malformed_table. accept_all (fst (wrap entry)) = None"
    by (simp add: accept_all_def)
  show ?thesis
    using register_scheduled_tasks_no_rollback
            [of "[entry_first]" "refuse_task ''second''" "[]" "[]" "[entry_first]" entry_second
                "''InvalidScheduleError: second''" "[entry_third]"]
          register_scheduled_tasks_no_rollback
            [of malformed_table accept_all "[]" "[]" "[]" entry_second "''x''" "[]"]
          p r a
    by (simp add: malformed_table_entries del: set_simps)
qed

text \<open>
  Registration is not all-or-nothing at \<open>malformed_table\<close>, whose second task has a
  malformed cron expression. With a broker that accepts what it is given, registration
  succeeds and all three tasks are registered. With a broker that raises for the second
  task, the first task stays registered.
\<close>

theorem register_scheduled_tasks_malformed_counterexample:
  "\<not> isl (fst (register_scheduled_tasks accept_all malformed_table [] [])) \<and>
   map (task_name \<circ> fst) (fst (snd (register_scheduled_tasks accept_all malformed_table [] []))) =
     [''first'', ''second'', ''third''] \<and>
   fst (register_scheduled_tasks (refuse_task ''second'') malformed_table [] []) =
     Inl ''InvalidScheduleError: second'' \<and>
   map (task_name \<circ> fst)
     (fst (snd (register_scheduled_tasks (refuse_task ''second'') malformed_table [] []))) =
     [''first'']"
  by (simp add: register_scheduled_tasks_def malformed_table_entries entry_first_def
      entry_second_def entry_third_def accept_all_def refuse_task_def broker_task_def Let_def)

text \<open>
  C7, as amended. Storing a definition under a name the registry already holds does not
  fail: the new definition takes the place of the old one, the names and their order
  stay as they were and every other name keeps its definition. A registry written as a
  dictionary display never holds two definitions under one name.
\<close>

theorem py_setitem_replaces:
  "distinct (map fst (py_dict_display items)) \<and>
   (k \<in> fst ` set d \<longrightarrow>
      map fst (py_setitem d k v) = map fst d \<and>
      map_of (py_setitem d k v) k = Some v \<and>
      (\<forall>k'. k' \<noteq> k \<longrightarrow> map_of (py_setitem d k v) k' = map_of d k'))"
proof (intro conjI impI allI)
  show "distinct (map fst (py_dict_display items))"
    unfolding py_dict_display_def by (rule fold_setitem_keys_distinct) simp
next
  assume "k \<in> fst ` set d"
  then show "map fst (py_setitem d k v) = map fst d"
    by (rule py_setitem_keys_present)
next
  show "map_of (py_setitem d k v) k = Some v"
    by (rule py_setitem_lookup)
next
  fix k'
  assume "k' \<noteq> k"
  then show "map_of (py_setitem d k v) k' = map_of d k'"
    by (rule py_setitem_other)
qed

theorem py_setitem_replaces_witness:
  "map fst (py_setitem malformed_table ''first'' (snd entry_second)) =
     [''first'', ''second'', ''third''] \<and>
   map_of (py_setitem malformed_table ''first'' (snd entry_second)) ''first'' =
     Some (snd entry_second) \<and>
   distinct (map fst duplicate_display)"
proof -
  have names: "map fst malformed_table = [''first'', ''second'', ''third'']"
    by (simp add: malformed_table_entries entry_first_def entry_second_def entry_third_def)
  then have k: "''first'' \<in> fst ` set malformed_table"
    by (metis list.set_intros(1) set_map)
  show ?thesis
    using py_setitem_replaces
            [of "[entry_first, entry_third, (''first'', snd entry_second)]"
                "''first''" malformed_table "snd entry_second"] k names
    by (simp add: duplicate_display_def)
qed

text \<open>
  A repeated name is no error: a display that names \<^verbatim>\<open>first\<close> twice is built and
  holds the later definition, and storing under the present name \<^verbatim>\<open>first\<close> changes
  the registry.
\<close>

theorem duplicate_name_counterexample:
  "duplicate_display = [(''first'', snd entry_second), entry_third] \<and>
   py_setitem [entry_first] ''first'' (snd entry_second) = [(''first'', snd entry_second)] \<and>
   py_setitem [entry_first] ''first'' (snd entry_second) \<noteq> [entry_first]"
  by (simp add: duplicate_display_def py_dict_display_def entry_first_def entry_second_def
      entry_third_def)


section \<open>Properties of the retry state machine\<close>

lemma run_firing_terminal: "terminal f \<Longrightarrow> run_firing p unit f = f"
  by (subst run_firing.simps) simp

lemma run_firing_step:
  "\<not> terminal f \<Longrightarrow> run_firing p unit f = run_firing p unit (step p unit f)"
  by (subst run_firing.simps) simp

text \<open>One execution of the unit: from Pending through Running to Succeeded or Failed.\<close>

lemma run_firing_attempt:
  "run_firing p unit \<lparr>state = Pending, attempts = a, executions = n\<rparr> =
     (if unit n
      then \<lparr>state = Succeeded, attempts = a, executions = n + 1\<rparr>
      else run_firing p unit \<lparr>state = Failed, attempts = a, executions = n + 1\<rparr>)"
proof -
  have "run_firing p unit \<lparr>state = Pending, attempts = a, executions = n\<rparr> =
        run_firing p unit \<lparr>state = Running, attempts = a, executions = n\<rparr>"
    by (subst run_firing_step) (simp_all add: terminal_def step_def)
  also have "\<dots> = run_firing p unit
      \<lparr>state = (if unit n then Succeeded else Failed), attempts = a, executions = n + 1\<rparr>"
    by (subst run_firing_step) (simp_all add: terminal_def step_def)
  also have "\<dots> = (if unit n
      then \<lparr>state = Succeeded, attempts = a, executions = n + 1\<rparr>
      else run_firing p unit \<lparr>state = Failed, attempts = a, executions = n + 1\<rparr>)"
    by (simp add: run_firing_terminal terminal_def)
  finally show ?thesis .
qed

text \<open>After a failure: one more attempt when the policy allows it, the end otherwise.\<close>

lemma run_firing_failed:
  "run_firing p unit \<lparr>state = Failed, attempts = a, executions = n\<rparr> =
     (if enabled p \<and> a < maxRetries p
      then run_firing p unit \<lparr>state = Pending, attempts = a + 1, executions = n\<rparr>
      else \<lparr>state = FailedTerminal, attempts = a, executions = n\<rparr>)"
proof (cases "enabled p \<and> a < maxRetries p")
  case True
  then show ?thesis
    by (subst run_firing_step) (simp_all add: terminal_def step_def)
next
  case False
  have "run_firing p unit \<lparr>state = Failed, attempts = a, executions = n\<rparr> =
        run_firing p unit \<lparr>state = FailedTerminal, attempts = a, executions = n\<rparr>"
    using False by (subst run_firing_step) (auto simp: terminal_def step_def)
  also have "\<dots> = \<lparr>state = FailedTerminal, attempts = a, executions = n\<rparr>"
    by (rule run_firing_terminal) (simp add: terminal_def)
  finally show ?thesis using False by auto
qed

text \<open>
  A unit that fails on each of its first \<open>maxRetries + 1\<close> runs is run exactly that
  often under an enabled policy.
\<close>

lemma run_firing_exhausts:
  assumes "enabled p" and "a \<le> maxRetries p" and "\<forall>i \<le> maxRetries p. \<not> unit i"
  shows "run_firing p unit \<lparr>state = Pending, attempts = a, executions = a\<rparr> =
           \<lparr>state = FailedTerminal, attempts = maxRetries p, executions = maxRetries p + 1\<rparr>"
  using assms(2)
proof (induction "maxRetries p - a" arbitrary: a)
  case 0
  then have a: "a = maxRetries p" by simp
  from assms(3) have "\<not> unit (maxRetries p)" by simp
  then show ?case
    by (simp add: a run_firing_attempt run_firing_failed)
next
  case (Suc d)
  then have lt: "a < maxRetries p" and d: "d = maxRetries p - (a + 1)"
    and le: "a + 1 \<le> maxRetries p"
    by simp_all
  from assms(3) lt have fails: "\<not> unit a" by simp
  have "run_firing p unit \<lparr>state = Pending, attempts = a, executions = a\<rparr> =
        run_firing p unit \<lparr>state = Failed, attempts = a, executions = a + 1\<rparr>"
    using fails by (simp only: run_firing_attempt if_False)
  also have "\<dots> = run_firing p unit \<lparr>state = Pending, attempts = a + 1, executions = a + 1\<rparr>"
    using lt assms(1) by (simp only: run_firing_failed simp_thms if_True)
  also have "\<dots> =
      \<lparr>state = FailedTerminal, attempts = maxRetries p, executions = maxRetries p + 1\<rparr>"
    by (rule Suc.hyps(1) [OF d le])
  finally show ?case .
qed

text \<open>
  C6. In one firing, starting with no attempt made: under a disabled policy a failing
  unit is run exactly once and the firing ends in FailedTerminal; under an enabled
  policy with \<open>maxRetries = 2\<close> a unit that fails on every run is run exactly three
  times before FailedTerminal, and a unit that fails first and succeeds on its second
  run is run exactly twice and the firing ends in Succeeded.
\<close>

theorem retry_policy_executions:
  "(\<not> enabled p \<and> \<not> unit 0 \<longrightarrow>
      run_firing p unit new_firing =
        \<lparr>state = FailedTerminal, attempts = 0, executions = 1\<rparr>) \<and>
   (enabled p \<and> maxRetries p = 2 \<and> \<not> unit 0 \<and> \<not> unit 1 \<and> \<not> unit 2 \<longrightarrow>
      run_firing p unit new_firing =
        \<lparr>state = FailedTerminal, attempts = 2, executions = 3\<rparr>) \<and>
   (enabled p \<and> maxRetries p = 2 \<and> \<not> unit 0 \<and> unit 1 \<longrightarrow>
      run_firing p unit new_firing =
        \<lparr>state = Succeeded, attempts = 1, executions = 2\<rparr>)"
proof (intro conjI impI)
  assume "\<not> enabled p \<and> \<not> unit 0"
  then show "run_firing p unit new_firing =
      \<lparr>state = FailedTerminal, attempts = 0, executions = 1\<rparr>"
    by (simp add: new_firing_def run_firing_attempt run_firing_failed)
next
  assume h: "enabled p \<and> maxRetries p = 2 \<and> \<not> unit 0 \<and> \<not> unit 1 \<and> \<not> unit 2"
  then have "\<forall>i \<le> maxRetries p. \<not> unit i"
    by (auto simp: le_Suc_eq numeral_2_eq_2)
  with h show "run_firing p unit new_firing =
      \<lparr>state = FailedTerminal, attempts = 2, executions = 3\<rparr>"
    using run_firing_exhausts [of p 0 unit] by (simp add: new_firing_def)
next
  assume "enabled p \<and> maxRetries p = 2 \<and> \<not> unit 0 \<and> unit 1"
  then show "run_firing p unit new_firing =
      \<lparr>state = Succeeded, attempts = 1, executions = 2\<rparr>"
    by (simp add: new_firing_def run_firing_attempt run_firing_failed)
qed

theorem retry_policy_executions_witness:
  "run_firing \<lparr>enabled = False, maxRetries = 2\<rparr> always_fails new_firing =
     \<lparr>state = FailedTerminal, attempts = 0, executions = 1\<rparr> \<and>
   run_firing \<lparr>enabled = True, maxRetries = 2\<rparr> always_fails new_firing =
     \<lparr>state = FailedTerminal, attempts = 2, executions = 3\<rparr> \<and>
   run_firing \<lparr>enabled = True, maxRetries = 2\<rparr> succeeds_second new_firing =
     \<lparr>state = Succeeded, attempts = 1, executions = 2\<rparr>"
  using retry_policy_executions [of "\<lparr>enabled = False, maxRetries = 2\<rparr>" always_fails]
        retry_policy_executions [of "\<lparr>enabled = True, maxRetries = 2\<rparr>" always_fails]
        retry_policy_executions [of "\<lparr>enabled = True, maxRetries = 2\<rparr>" succeeds_second]
  by (simp add: always_fails_def succeeds_second_def)


end
